theory Spec2Isabelle
  imports Complex_Main "HOL-Library.Word"
begin

section \<open>The aiohttp forward driver of nonebot (\<open>nonebot/drivers/aiohttp.py\<close>)\<close>

text \<open>
  The driver is a class with three fields of its own (\<open>startup_funcs\<close>,
  \<open>shutdown_funcs\<close>, \<open>requests\<close>) and two it inherits from \<open>ForwardDriver\<close>
  (\<open>_adapters\<close>, \<open>_clients\<close>). Its methods are coroutines of one asyncio event loop.
  The embedding is by explicit state passing: a \<open>system\<close> holds the driver, the tasks of
  the event loop and the trace of the calls the code makes on its collaborators (the
  logger, asyncio, aiohttp, the bot). What a collaborator answers at an \<open>await\<close> is an
  input of the model; a coroutine whose input ends while it awaits is \<open>Suspended\<close>.
\<close>

subsection \<open>Values\<close>

type_synonym bytes = "8 word list"

text \<open>
  The exceptions the code raises or catches by class. \<open>asyncio.CancelledError\<close> derives
  from \<open>BaseException\<close> (Python 3.8 and later), so \<open>except Exception\<close> does not catch it;
  \<open>Base_exception\<close> stands for the other classes outside \<open>Exception\<close>
  (\<open>KeyboardInterrupt\<close>, \<open>SystemExit\<close>), \<open>Other_exception\<close> for any further subclass of
  \<open>Exception\<close>.
\<close>

datatype exn =
    TypeError
  | KeyError
  | SetupFailed
  | ClientResponseError
  | CancelledError
  | Other_exception string
  | Base_exception string

fun is_Exception :: "exn \<Rightarrow> bool" where
  "is_Exception CancelledError = False"
| "is_Exception (Base_exception _) = False"
| "is_Exception _ = True"

text \<open>How a call ended: it returned, it raised, or it is suspended at an \<open>await\<close>.\<close>

datatype outcome = Returned | Raised exn | Suspended

text \<open>
  A connection description (\<open>HTTPConnection\<close>) with the fields the loops read, and its
  two supported subclasses. \<open>Unsupported\<close> is any other object passed as a request.
\<close>

record connection =
  scheme :: string
  headers :: "(string \<times> string) list"
  path :: string
  query_string :: bytes

datatype request =
    HTTPRequest connection string bytes
  | WebSocket connection
  | Unsupported

fun is_HTTPRequest :: "request \<Rightarrow> bool" where
  "is_HTTPRequest (HTTPRequest _ _ _) = True"
| "is_HTTPRequest _ = False"

fun is_WebSocket :: "request \<Rightarrow> bool" where
  "is_WebSocket (WebSocket _) = True"
| "is_WebSocket _ = False"

record RequestSetup =
  adapter :: string
  request :: request
  poll_interval :: real
  reconnect_interval :: real

record bot =
  bot_class :: string
  self_id :: string
  bot_request :: request

text \<open>
  A bot class of the adapter registry: its name and its \<open>check_permission\<close>, which
  raises or returns the pair of an optional \<open>self_id\<close> and a second component the driver
  drops.
\<close>

datatype BotClass = BotClass (class_name: string)
  (check_permission: "request \<Rightarrow> exn + (string option \<times> string)")

text \<open>The coroutines the event loop runs as tasks; \<open>Foreign\<close> is work the driver did not create.\<close>

datatype coroutine =
    Co_startup
  | Co_shutdown
  | Co_http_loop bot request real
  | Co_ws_loop bot request real
  | Co_handle_message bot bytes
  | Foreign string

datatype task_state = Pending | Cancelling | Done

record task =
  work :: coroutine
  tstate :: task_state

record url =
  url_scheme :: string
  url_host :: string
  url_path :: string
  url_query :: string

datatype awaitable =
    Gather_hooks "string list"
  | Gather_tasks "nat list"
  | Session_request string url bytes
  | Response_read
  | Ws_connect url
  | Sleep real

datatype event =
    Log_error string
  | Create_task coroutine
  | Bot_connect bot
  | Bot_disconnect bot
  | Call_hook string
  | Await awaitable
  | Not_awaited awaitable
  | Task_cancel nat
  | Loop_stop

record driver =
  startup_funcs :: "string list"
  shutdown_funcs :: "string list"
  requests :: "RequestSetup list"
  adapters :: "string \<rightharpoonup> BotClass"
  clients :: "string \<rightharpoonup> bot"

text \<open>
  The driver, the tasks of the event loop (a task is known by its position in the list,
  and stays there when it is done), and the trace.
\<close>

record system =
  drv :: driver
  tasks :: "task list"
  trace :: "event list"

definition emit :: "event \<Rightarrow> system \<Rightarrow> system" where
  "emit e s = s\<lparr>trace := trace s @ [e]\<rparr>"

definition log_error :: "string \<Rightarrow> system \<Rightarrow> system" where
  "log_error msg s = emit (Log_error msg) s"

text \<open>\<open>asyncio.create_task\<close>: the coroutine becomes a new pending task of the loop.\<close>

definition create_task :: "coroutine \<Rightarrow> system \<Rightarrow> system" where
  "create_task co s =
     emit (Create_task co) (s\<lparr>tasks := tasks s @ [\<lparr>work = co, tstate = Pending\<rparr>]\<rparr>)"

subsection \<open>Registration: \<open>on_startup\<close>, \<open>on_shutdown\<close>, \<open>setup\<close>\<close>

text \<open>The hook sets are Python sets: adding a member again changes nothing.\<close>

definition on_startup :: "string \<Rightarrow> system \<Rightarrow> system" where
  "on_startup func s = s\<lparr>drv := (drv s)\<lparr>startup_funcs := List.insert func (startup_funcs (drv s))\<rparr>\<rparr>"

definition on_shutdown :: "string \<Rightarrow> system \<Rightarrow> system" where
  "on_shutdown func s = s\<lparr>drv := (drv s)\<lparr>shutdown_funcs := List.insert func (shutdown_funcs (drv s))\<rparr>\<rparr>"

text \<open>
  \<open>Driver.setup\<close>. The two intervals are optional arguments with the default \<open>3.\<close>;
  \<open>None\<close> is an argument left out.
\<close>

definition default_interval :: "real option \<Rightarrow> real" where
  "default_interval v = (case v of None \<Rightarrow> 3 | Some x \<Rightarrow> x)"

definition driver_setup ::
  "string \<Rightarrow> request \<Rightarrow> real option \<Rightarrow> real option \<Rightarrow> system \<Rightarrow> system \<times> outcome" where
  "driver_setup adapter_name req poll reconnect s =
     (if \<not> (is_HTTPRequest req \<or> is_WebSocket req) then (s, Raised TypeError)
      else (s\<lparr>drv := (drv s)\<lparr>requests := requests (drv s) @
              [\<lparr>adapter = adapter_name, request = req,
                poll_interval = default_interval poll,
                reconnect_interval = default_interval reconnect\<rparr>]\<rparr>\<rparr>, Returned))"

subsection \<open>The connected-bots table\<close>

text \<open>
  Modelled from the spec: \<open>_bot_connect\<close> and \<open>_bot_disconnect\<close> are methods of
  \<open>ForwardDriver\<close> in \<open>nonebot/drivers/__init__.py\<close>, which is not among the source files.
  The spec gives them as the mutators \<open>connectBot(bot)\<close> and \<open>disconnectBot(bot)\<close> of the
  connected-bots table, a mapping from \<open>selfId\<close> to the bot: the first inserts the bot under
  its \<open>selfId\<close>, the second removes that entry.
\<close>

definition bot_connect :: "bot \<Rightarrow> system \<Rightarrow> system" where
  "bot_connect b s =
     emit (Bot_connect b) (s\<lparr>drv := (drv s)\<lparr>clients := (clients (drv s))(self_id b \<mapsto> b)\<rparr>\<rparr>)"

definition bot_disconnect :: "bot \<Rightarrow> system \<Rightarrow> system" where
  "bot_disconnect b s =
     emit (Bot_disconnect b) (s\<lparr>drv := (drv s)\<lparr>clients := (clients (drv s))(self_id b := None)\<rparr>\<rparr>)"

subsection \<open>Establishment: \<open>_http_setup\<close> and \<open>_ws_setup\<close>\<close>

text \<open>
  \<open>self._adapters[adapter]\<close> raises \<open>KeyError\<close> for a name that is not registered (the
  spec's \<open>UnknownAdapter\<close>); \<open>not self_id\<close> holds of \<open>None\<close> and of the empty string.
\<close>

definition http_setup :: "string \<Rightarrow> request \<Rightarrow> real \<Rightarrow> system \<Rightarrow> system \<times> outcome" where
  "http_setup adapter_name req interval s =
     (case adapters (drv s) adapter_name of
        None \<Rightarrow> (s, Raised KeyError)
      | Some cls \<Rightarrow>
          (case check_permission cls req of
             Inl e \<Rightarrow> (s, Raised e)
           | Inr (None, _) \<Rightarrow> (s, Raised SetupFailed)
           | Inr (Some sid, _) \<Rightarrow>
               if sid = [] then (s, Raised SetupFailed)
               else
                 (let b = \<lparr>bot_class = class_name cls, self_id = sid, bot_request = req\<rparr>
                  in (create_task (Co_http_loop b req interval) (bot_connect b s), Returned))))"

definition ws_setup :: "string \<Rightarrow> request \<Rightarrow> real \<Rightarrow> system \<Rightarrow> system \<times> outcome" where
  "ws_setup adapter_name req interval s =
     (case adapters (drv s) adapter_name of
        None \<Rightarrow> (s, Raised KeyError)
      | Some cls \<Rightarrow>
          (case check_permission cls req of
             Inl e \<Rightarrow> (s, Raised e)
           | Inr (None, _) \<Rightarrow> (s, Raised SetupFailed)
           | Inr (Some sid, _) \<Rightarrow>
               if sid = [] then (s, Raised SetupFailed)
               else
                 (let b = \<lparr>bot_class = class_name cls, self_id = sid, bot_request = req\<rparr>
                  in (create_task (Co_ws_loop b req interval) (bot_connect b s), Returned))))"

subsection \<open>\<open>startup\<close>\<close>

text \<open>The coroutine \<open>startup\<close> makes for one registered setup.\<close>

definition establish :: "RequestSetup \<Rightarrow> system \<Rightarrow> system \<times> outcome" where
  "establish r s =
     (if is_HTTPRequest (request r) then http_setup (adapter r) (request r) (poll_interval r) s
      else ws_setup (adapter r) (request r) (reconnect_interval r) s)"

text \<open>
  \<open>await asyncio.gather(*setups)\<close>: the establishments are taken one after the other, in
  the order in which they end; the first one that raises ends the wait with its
  exception. (An establishment writes the driver only after its one \<open>await\<close>, in one
  piece, so the order of the ends is the only thing concurrency adds here.)
\<close>

fun gather_setups :: "RequestSetup list \<Rightarrow> system \<Rightarrow> system \<times> outcome" where
  "gather_setups [] s = (s, Returned)"
| "gather_setups (r # rs) s =
     (case establish r s of
        (s', Returned) \<Rightarrow> gather_setups rs s'
      | (s', out) \<Rightarrow> (s', out))"

text \<open>\<open>[f() for f in funcs]\<close>: every hook is called, which makes its coroutine.\<close>

definition call_hooks :: "string list \<Rightarrow> system \<Rightarrow> system" where
  "call_hooks funcs s = fold (\<lambda>f. emit (Call_hook f)) funcs s"

text \<open>
  \<open>answers\<close> is what the awaits that suspend are resumed with, in order: \<open>None\<close> resumes
  normally, \<open>Some e\<close> raises \<open>e\<close> at the await. \<open>startup\<close> has one such await, the join of
  the startup hooks, reached only when there is a hook.
\<close>

definition startup :: "exn option list \<Rightarrow> system \<Rightarrow> system \<times> outcome" where
  "startup answers s =
     (case gather_setups (requests (drv s)) s of
        (s1, Raised e) \<Rightarrow>
          if is_Exception e
          then (create_task Co_shutdown (log_error ''Application startup failed. Exiting.'' s1),
                Returned)
          else (s1, Raised e)
      | (s1, Suspended) \<Rightarrow> (s1, Suspended)
      | (s1, Returned) \<Rightarrow>
          (let cors = startup_funcs (drv s1); s2 = call_hooks cors s1
           in if cors = [] then (s2, Returned)
              else
                (let s3 = emit (Await (Gather_hooks cors)) s2
                 in case answers of
                      [] \<Rightarrow> (s3, Suspended)
                    | None # _ \<Rightarrow> (s3, Returned)
                    | Some e # _ \<Rightarrow>
                        if is_Exception e
                        then (log_error ''Error when running startup function. Ignored!'' s3,
                              Returned)
                        else (s3, Raised e))))"

subsection \<open>\<open>shutdown\<close>\<close>

text \<open>
  \<open>Task.cancel\<close> asks a task that is not done to cancel and does nothing to one that
  is; \<open>asyncio.all_tasks\<close> is the tasks of the loop that are not done.
\<close>

definition task_cancel :: "task \<Rightarrow> task" where
  "task_cancel t = (if tstate t = Done then t else t\<lparr>tstate := Cancelling\<rparr>)"

definition cancel :: "nat \<Rightarrow> system \<Rightarrow> system" where
  "cancel i s = emit (Task_cancel i) (s\<lparr>tasks := (tasks s)[i := task_cancel (tasks s ! i)]\<rparr>)"

definition all_tasks :: "system \<Rightarrow> nat list" where
  "all_tasks s = [i \<leftarrow> [0..<length (tasks s)]. tstate (tasks s ! i) \<noteq> Done]"

text \<open>The join of the cancelled tasks has ended: each of them is done.\<close>

definition joined :: "nat list \<Rightarrow> system \<Rightarrow> system" where
  "joined ts s = s\<lparr>tasks := fold (\<lambda>i xs. xs[i := (xs ! i)\<lparr>tstate := Done\<rparr>]) ts (tasks s)\<rparr>"

text \<open>
  The second half of \<open>shutdown\<close>, from \<open>tasks = [...]\<close> on; \<open>me\<close> is the task running it
  (\<open>asyncio.current_task()\<close>). \<open>asyncio.gather\<close> of no task is done at once, so the await
  suspends only when a task was cancelled. With \<open>return_exceptions=True\<close> the join
  raises nothing of the tasks'; \<open>Some e\<close> is the cancellation of \<open>shutdown\<close> itself.
\<close>

definition shutdown_sweep :: "nat \<Rightarrow> exn option list \<Rightarrow> system \<Rightarrow> system \<times> outcome" where
  "shutdown_sweep me answers s =
     (let ts = [t \<leftarrow> all_tasks s. t \<noteq> me]; s1 = fold cancel ts s
      in if ts = [] then (emit Loop_stop s1, Returned)
         else
           (let s2 = emit (Await (Gather_tasks ts)) s1
            in case answers of
                 [] \<Rightarrow> (s2, Suspended)
               | None # _ \<Rightarrow> (emit Loop_stop (joined ts s2), Returned)
               | Some e # _ \<Rightarrow> (s2, Raised e)))"

definition shutdown :: "nat \<Rightarrow> exn option list \<Rightarrow> system \<Rightarrow> system \<times> outcome" where
  "shutdown me answers s =
     (let cors = shutdown_funcs (drv s); s1 = call_hooks cors s
      in if cors = [] then shutdown_sweep me answers s1
         else
           (let s2 = emit (Await (Gather_hooks cors)) s1
            in case answers of
                 [] \<Rightarrow> (s2, Suspended)
               | None # rest \<Rightarrow> shutdown_sweep me rest s2
               | Some e # rest \<Rightarrow>
                   if is_Exception e
                   then shutdown_sweep me rest
                          (log_error ''Error when running shutdown function. Ignored!'' s2)
                   else (s2, Raised e)))"

subsection \<open>The poll loop: \<open>_http_loop\<close>\<close>

text \<open>
  \<open>URL.build\<close> from the request: \<open>request.headers["host"]\<close> raises \<open>KeyError\<close> when there
  is no such header; the query string is decoded as latin-1, which maps each byte to the
  character of the same code.
\<close>

definition build_url :: "connection \<Rightarrow> exn + url" where
  "build_url c =
     (case map_of (headers c) ''host'' of
        None \<Rightarrow> Inl KeyError
      | Some h \<Rightarrow>
          Inr \<lparr>url_scheme = scheme c, url_host = h, url_path = path c,
               url_query = map (\<lambda>b. char_of (unat b)) (query_string c)\<rparr>)"

text \<open>
  What the network answers in one round of the loop: to the request (an exception, or a
  response with its status), to the read of the body, and to the sleep. An answer the
  round does not reach is not looked at. The task is cancelled by \<open>CancelledError\<close> raised
  at one of the three awaits.
\<close>

datatype poll = Poll (request_answer: "exn + nat") (read_answer: "exn + bytes")
  (sleep_answer: "exn option")

text \<open>
  The body of the inner \<open>try\<close>. \<open>raise_for_status\<close> is aiohttp's: the model takes
  as \<open>rfs\<close> the statuses at which it raises \<open>ClientResponseError\<close>. The result is the
  exception that leaves the body, if any.
\<close>

definition poll_once ::
  "(nat \<Rightarrow> bool) \<Rightarrow> bot \<Rightarrow> string \<Rightarrow> url \<Rightarrow> bytes \<Rightarrow> poll \<Rightarrow> system \<Rightarrow> system \<times> exn option" where
  "poll_once rfs b method u body p s =
     (let s0 = emit (Await (Session_request method u body)) s
      in case request_answer p of
           Inl e \<Rightarrow> (s0, Some e)
         | Inr status \<Rightarrow>
             if rfs status then (s0, Some ClientResponseError)
             else
               (let s1 = emit (Await Response_read) s0
                in case read_answer p of
                     Inl e \<Rightarrow> (s1, Some e)
                   | Inr data \<Rightarrow> (create_task (Co_handle_message b data) s1, None)))"

text \<open>
  \<open>while True\<close>: one round per answer. Out of answers, the loop is suspended at its
  next request.
\<close>

fun http_poll ::
  "(nat \<Rightarrow> bool) \<Rightarrow> bot \<Rightarrow> string \<Rightarrow> url \<Rightarrow> bytes \<Rightarrow> real \<Rightarrow> poll list \<Rightarrow> system \<Rightarrow> system \<times> outcome"
where
  "http_poll rfs b method u body interval [] s =
     (emit (Await (Session_request method u body)) s, Suspended)"
| "http_poll rfs b method u body interval (p # ps) s =
     (case poll_once rfs b method u body p s of
        (s1, Some e) \<Rightarrow>
          if e = ClientResponseError
          then
            (let s2 = emit (Await (Sleep interval))
                        (log_error ''Error occurred while requesting'' s1)
             in case sleep_answer p of
                  None \<Rightarrow> http_poll rfs b method u body interval ps s2
                | Some e' \<Rightarrow> (s2, Raised e'))
          else (s1, Raised e)
      | (s1, None) \<Rightarrow>
          (let s2 = emit (Await (Sleep interval)) s1
           in case sleep_answer p of
                None \<Rightarrow> http_poll rfs b method u body interval ps s2
              | Some e' \<Rightarrow> (s2, Raised e')))"

text \<open>
  The body of the outer \<open>try\<close>. Reading \<open>request.method\<close> of a request that is not an
  \<open>HTTPRequest\<close> raises (\<open>AttributeError\<close>).
\<close>

definition http_run ::
  "(nat \<Rightarrow> bool) \<Rightarrow> bot \<Rightarrow> request \<Rightarrow> real \<Rightarrow> poll list \<Rightarrow> system \<Rightarrow> system \<times> outcome" where
  "http_run rfs b req interval ps s =
     (case req of
        HTTPRequest c method body \<Rightarrow>
          (case build_url c of
             Inl e \<Rightarrow> (s, Raised e)
           | Inr u \<Rightarrow> http_poll rfs b method u body interval ps s)
      | _ \<Rightarrow> (s, Raised (Other_exception ''AttributeError'')))"

text \<open>
  The handlers of the outer \<open>try\<close>, the same in both loops but for the message:
  \<open>except asyncio.CancelledError: pass\<close>, \<open>except Exception\<close> logs, and \<open>finally\<close>
  disconnects the bot on every way out. A suspended loop has not left the \<open>try\<close>.
\<close>

definition loop_exit :: "string \<Rightarrow> bot \<Rightarrow> system \<times> outcome \<Rightarrow> system \<times> outcome" where
  "loop_exit msg b r =
     (case r of
        (s, Suspended) \<Rightarrow> (s, Suspended)
      | (s, Returned) \<Rightarrow> (bot_disconnect b s, Returned)
      | (s, Raised e) \<Rightarrow>
          if e = CancelledError then (bot_disconnect b s, Returned)
          else if is_Exception e then (bot_disconnect b (log_error msg s), Returned)
          else (bot_disconnect b s, Raised e))"

definition http_loop ::
  "(nat \<Rightarrow> bool) \<Rightarrow> bot \<Rightarrow> request \<Rightarrow> real \<Rightarrow> poll list \<Rightarrow> system \<Rightarrow> system \<times> outcome" where
  "http_loop rfs b req interval ps s =
     loop_exit ''Unexpected exception occurred while http polling'' b
       (http_run rfs b req interval ps s)"

subsection \<open>The reconnect loop: \<open>_ws_loop\<close>\<close>

text \<open>
  A frame with its \<open>msg.type\<close>; \<open>Other_frame\<close> is a type the loop has no branch for. The
  text of a frame is a Python \<open>str\<close>, of a type \<open>'t\<close> the model leaves open, and
  \<open>str.encode\<close> is the parameter \<open>enc\<close>.
\<close>

datatype 't frame = Text 't | Binary bytes | Error | Other_frame

text \<open>
  How a connection goes on after the frames received so far: the peer closes it (the
  iteration ends), the receive raises (\<open>CancelledError\<close> when the task is cancelled), or
  the loop waits for the next frame.
\<close>

datatype ending = Closed | Receive_raised exn | Waiting

datatype 't ws_session = Connect_raised exn | Connected "'t frame list" ending

text \<open>
  \<open>async for msg in ws\<close>: the state after the frames, and whether an error frame broke
  the iteration.
\<close>

fun ws_frames :: "('t \<Rightarrow> bytes) \<Rightarrow> bot \<Rightarrow> 't frame list \<Rightarrow> system \<Rightarrow> system \<times> bool" where
  "ws_frames enc b [] s = (s, False)"
| "ws_frames enc b (Text d # ms) s = ws_frames enc b ms (create_task (Co_handle_message b (enc d)) s)"
| "ws_frames enc b (Binary d # ms) s = ws_frames enc b ms (create_task (Co_handle_message b d) s)"
| "ws_frames enc b (Error # ms) s =
     (log_error ''Error while handling websocket frame. Try to reconnect...'' s, True)"
| "ws_frames enc b (Other_frame # ms) s = ws_frames enc b ms s"

text \<open>
  The outer \<open>while True\<close>: one connection per element. \<open>asyncio.sleep(reconnect_interval)\<close>
  is called and its coroutine dropped: nothing awaits it.
\<close>

fun ws_connections ::
  "('t \<Rightarrow> bytes) \<Rightarrow> bot \<Rightarrow> url \<Rightarrow> real \<Rightarrow> 't ws_session list \<Rightarrow> system \<Rightarrow> system \<times> outcome" where
  "ws_connections enc b u interval [] s = (emit (Await (Ws_connect u)) s, Suspended)"
| "ws_connections enc b u interval (Connect_raised e # cs) s =
     (emit (Await (Ws_connect u)) s, Raised e)"
| "ws_connections enc b u interval (Connected ms fin # cs) s =
     (case ws_frames enc b ms (emit (Await (Ws_connect u)) s) of
        (s1, True) \<Rightarrow> ws_connections enc b u interval cs (emit (Not_awaited (Sleep interval)) s1)
      | (s1, False) \<Rightarrow>
          (case fin of
             Closed \<Rightarrow> ws_connections enc b u interval cs (emit (Not_awaited (Sleep interval)) s1)
           | Receive_raised e \<Rightarrow> (s1, Raised e)
           | Waiting \<Rightarrow> (s1, Suspended)))"

text \<open>The request's connection fields; a request without them raises (\<open>AttributeError\<close>).\<close>

definition ws_run ::
  "('t \<Rightarrow> bytes) \<Rightarrow> bot \<Rightarrow> request \<Rightarrow> real \<Rightarrow> 't ws_session list \<Rightarrow> system \<Rightarrow> system \<times> outcome" where
  "ws_run enc b req interval cs s =
     (case req of
        Unsupported \<Rightarrow> (s, Raised (Other_exception ''AttributeError''))
      | HTTPRequest c _ _ \<Rightarrow>
          (case build_url c of
             Inl e \<Rightarrow> (s, Raised e)
           | Inr u \<Rightarrow> ws_connections enc b u interval cs s)
      | WebSocket c \<Rightarrow>
          (case build_url c of
             Inl e \<Rightarrow> (s, Raised e)
           | Inr u \<Rightarrow> ws_connections enc b u interval cs s))"

definition ws_loop ::
  "('t \<Rightarrow> bytes) \<Rightarrow> bot \<Rightarrow> request \<Rightarrow> real \<Rightarrow> 't ws_session list \<Rightarrow> system \<Rightarrow> system \<times> outcome" where
  "ws_loop enc b req interval cs s =
     loop_exit ''Unexpected exception occurred while websocket loop'' b
       (ws_run enc b req interval cs s)"

subsection \<open>Reading a trace\<close>

text \<open>The events a call added: the trace of the state after it, past the trace before it.\<close>

definition since :: "system \<Rightarrow> system \<Rightarrow> event list" where
  "since s s' = drop (length (trace s)) (trace s')"

fun is_hook_call :: "event \<Rightarrow> bool" where
  "is_hook_call (Call_hook _) = True"
| "is_hook_call _ = False"

fun is_connect :: "event \<Rightarrow> bool" where
  "is_connect (Bot_connect _) = True"
| "is_connect _ = False"

text \<open>
  Kinds of events: an awaited sleep; and the events by which a coroutine acts on the
  table of bots, on other tasks or on the loop, which the body of a maintenance loop never
  makes.
\<close>

fun is_sleep :: "event \<Rightarrow> bool" where
  "is_sleep (Await (Sleep _)) = True"
| "is_sleep _ = False"

fun is_loop_control :: "event \<Rightarrow> bool" where
  "is_loop_control (Bot_disconnect _) = True"
| "is_loop_control (Bot_connect _) = True"
| "is_loop_control (Task_cancel _) = True"
| "is_loop_control Loop_stop = True"
| "is_loop_control (Call_hook _) = True"
| "is_loop_control _ = False"

text \<open>
  \<open>adds P s s'\<close>: \<open>s'\<close> is \<open>s\<close> with events added to the trace that all satisfy \<open>P\<close>, and
  with the same driver.
\<close>

definition adds :: "(event \<Rightarrow> bool) \<Rightarrow> system \<Rightarrow> system \<Rightarrow> bool" where
  "adds P s s' \<longleftrightarrow> (\<exists>evs. trace s' = trace s @ evs \<and> list_all P evs) \<and> drv s' = drv s"

abbreviation (input) calm :: "event \<Rightarrow> bool" where
  "calm e \<equiv> \<not> is_loop_control e"

abbreviation (input) still :: "event \<Rightarrow> bool" where
  "still e \<equiv> \<not> is_loop_control e \<and> \<not> is_sleep e"

subsection \<open>A driver to run the model on\<close>

text \<open>\<open>Driver.__init__\<close> on a fresh event loop.\<close>

definition initial :: system where
  "initial =
     \<lparr>drv = \<lparr>startup_funcs = [], shutdown_funcs = [], requests = [],
             adapters = Map.empty, clients = Map.empty\<rparr>,
      tasks = [], trace = []\<rparr>"

definition example_connection :: connection where
  "example_connection =
     \<lparr>scheme = ''http'', headers = [(''host'', ''example.org'')], path = ''/poll'',
      query_string = []\<rparr>"

definition example_http :: request where
  "example_http = HTTPRequest example_connection ''GET'' []"

definition example_ws :: request where
  "example_ws = WebSocket example_connection"

text \<open>
  An adapter whose permission check names the bot \<open>bot-1\<close> for an HTTP request and gives
  an empty \<open>self_id\<close> for a socket request.
\<close>

definition example_class :: BotClass where
  "example_class =
     BotClass ''onebot''
       (\<lambda>req. if is_HTTPRequest req then Inr (Some ''bot-1'', []) else Inr (Some [], []))"

definition example_bot :: bot where
  "example_bot = \<lparr>bot_class = ''onebot'', self_id = ''bot-1'', bot_request = example_http\<rparr>"

definition example_url :: url where
  "example_url =
     \<lparr>url_scheme = ''http'', url_host = ''example.org'', url_path = ''/poll'', url_query = []\<rparr>"

text \<open>The adapter registered, one hook of each kind, and one HTTP setup.\<close>

definition example_system :: system where
  "example_system =
     fst (driver_setup ''onebot'' example_http (Some 1) None
       (on_shutdown ''on_stop'' (on_startup ''on_start''
         (initial\<lparr>drv := (drv initial)\<lparr>adapters := [''onebot'' \<mapsto> example_class]\<rparr>\<rparr>))))"

text \<open>The same with a socket setup after it, whose establishment fails.\<close>

definition failing_system :: system where
  "failing_system = fst (driver_setup ''onebot'' example_ws None None example_system)"

text \<open>
  A loop on which someone else's task is pending when the driver's \<open>shutdown\<close> task is
  created.
\<close>

definition foreign_system :: system where
  "foreign_system =
     create_task Co_shutdown
       (example_system\<lparr>tasks := [\<lparr>work = Foreign ''user job'', tstate = Pending\<rparr>]\<rparr>)"

text \<open>
  The failing startup has created its \<open>shutdown\<close> task; then a signal arrives, whose
  handler (installed by \<open>run\<close>) creates another.
\<close>

definition signalled_system :: system where
  "signalled_system = create_task Co_shutdown (fst (startup [] failing_system))"

text \<open>The driver after the HTTP setup is established: \<open>bot-1\<close> is connected.\<close>

definition connected_system :: system where
  "connected_system = fst (http_setup ''onebot'' example_http 1 example_system)"

section \<open>Properties\<close>

subsection \<open>What the primitive steps do to the state\<close>

lemma emit_simps [simp]:
  "trace (emit e s) = trace s @ [e]" "tasks (emit e s) = tasks s" "drv (emit e s) = drv s"
  by (simp_all add: emit_def)

lemma log_error_simps [simp]:
  "trace (log_error m s) = trace s @ [Log_error m]" "tasks (log_error m s) = tasks s"
  "drv (log_error m s) = drv s"
  by (simp_all add: log_error_def)

lemma create_task_simps [simp]:
  "trace (create_task co s) = trace s @ [Create_task co]"
  "tasks (create_task co s) = tasks s @ [\<lparr>work = co, tstate = Pending\<rparr>]"
  "drv (create_task co s) = drv s"
  by (simp_all add: create_task_def)

lemma bot_connect_simps [simp]:
  "trace (bot_connect b s) = trace s @ [Bot_connect b]"
  "tasks (bot_connect b s) = tasks s"
  "clients (drv (bot_connect b s)) = (clients (drv s))(self_id b \<mapsto> b)"
  "adapters (drv (bot_connect b s)) = adapters (drv s)"
  "requests (drv (bot_connect b s)) = requests (drv s)"
  "startup_funcs (drv (bot_connect b s)) = startup_funcs (drv s)"
  "shutdown_funcs (drv (bot_connect b s)) = shutdown_funcs (drv s)"
  by (simp_all add: bot_connect_def)

lemma bot_disconnect_simps [simp]:
  "trace (bot_disconnect b s) = trace s @ [Bot_disconnect b]"
  "tasks (bot_disconnect b s) = tasks s"
  "clients (drv (bot_disconnect b s)) = (clients (drv s))(self_id b := None)"
  "adapters (drv (bot_disconnect b s)) = adapters (drv s)"
  "requests (drv (bot_disconnect b s)) = requests (drv s)"
  "startup_funcs (drv (bot_disconnect b s)) = startup_funcs (drv s)"
  "shutdown_funcs (drv (bot_disconnect b s)) = shutdown_funcs (drv s)"
  by (simp_all add: bot_disconnect_def)

lemma since_append [simp]: "trace s' = trace s @ evs \<Longrightarrow> since s s' = evs"
  by (simp add: since_def)

lemma since_self [simp]: "since s s = []"
  by (simp add: since_def)

lemma call_hooks_simps [simp]:
  "trace (call_hooks fs s) = trace s @ map Call_hook fs"
  "tasks (call_hooks fs s) = tasks s"
  "drv (call_hooks fs s) = drv s"
  unfolding call_hooks_def by (induction fs arbitrary: s) simp_all

lemmas example_defs =
  initial_def example_connection_def example_http_def example_ws_def example_class_def
  example_bot_def example_url_def example_system_def failing_system_def
  driver_setup_def default_interval_def on_startup_def on_shutdown_def

subsection \<open>Registration\<close>

text \<open>
  C10. \<open>setup\<close> (the spec's \<open>requestConnection\<close>) raises \<open>TypeError\<close> (the spec's
  \<open>InvalidRequestKind\<close>) for a request that is neither an \<open>HTTPRequest\<close> nor a
  \<open>WebSocket\<close>, and then leaves the whole state, the list of setups with it, as it was.
  Otherwise it returns, and the list of setups is the old one with one \<open>RequestSetup\<close>
  appended that carries the adapter, the request and the two intervals, each \<open>3\<close> when
  left out; nothing is added to the trace, no task is created and the table of bots is
  untouched: no network activity.
\<close>

theorem setup_registers:
  "(\<not> (is_HTTPRequest req \<or> is_WebSocket req) \<longrightarrow>
      driver_setup a req p r s = (s, Raised TypeError)) \<and>
   (is_HTTPRequest req \<or> is_WebSocket req \<longrightarrow>
      snd (driver_setup a req p r s) = Returned \<and>
      requests (drv (fst (driver_setup a req p r s))) =
        requests (drv s) @
          [\<lparr>adapter = a, request = req,
            poll_interval = (case p of None \<Rightarrow> 3 | Some x \<Rightarrow> x),
            reconnect_interval = (case r of None \<Rightarrow> 3 | Some x \<Rightarrow> x)\<rparr>] \<and>
      trace (fst (driver_setup a req p r s)) = trace s \<and>
      tasks (fst (driver_setup a req p r s)) = tasks s \<and>
      clients (drv (fst (driver_setup a req p r s))) = clients (drv s))"
  by (simp add: driver_setup_def default_interval_def)

theorem setup_registers_witness:
  "driver_setup ''onebot'' Unsupported None None example_system =
     (example_system, Raised TypeError) \<and>
   snd (driver_setup ''onebot'' example_ws (Some 5) None example_system) = Returned \<and>
   requests (drv (fst (driver_setup ''onebot'' example_ws (Some 5) None example_system))) =
     [\<lparr>adapter = ''onebot'', request = example_http, poll_interval = 1, reconnect_interval = 3\<rparr>,
      \<lparr>adapter = ''onebot'', request = example_ws, poll_interval = 5, reconnect_interval = 3\<rparr>] \<and>
   trace (fst (driver_setup ''onebot'' example_ws (Some 5) None example_system)) = []"
proof -
  have bad: "\<not> (is_HTTPRequest Unsupported \<or> is_WebSocket Unsupported)" by simp
  have good: "is_HTTPRequest example_ws \<or> is_WebSocket example_ws"
    by (simp add: example_ws_def)
  have old: "requests (drv example_system) =
      [\<lparr>adapter = ''onebot'', request = example_http, poll_interval = 1, reconnect_interval = 3\<rparr>]"
    "trace example_system = []"
    by (simp_all add: example_defs)
  show ?thesis
    using setup_registers [of Unsupported "''onebot''" None None example_system]
      setup_registers [of example_ws "''onebot''" "Some 5" None example_system] bad good old
    by simp
qed

subsection \<open>Establishment and \<open>startup\<close>\<close>

lemma establish_drv:
  "adapters (drv (fst (establish r s))) = adapters (drv s)"
  "requests (drv (fst (establish r s))) = requests (drv s)"
  "startup_funcs (drv (fst (establish r s))) = startup_funcs (drv s)"
  by (auto simp: establish_def http_setup_def ws_setup_def Let_def split: option.splits sum.splits prod.splits)

lemma establish_outcome_indep:
  "adapters (drv s') = adapters (drv s) \<Longrightarrow> snd (establish r s') = snd (establish r s)"
  by (auto simp: establish_def http_setup_def ws_setup_def Let_def split: option.splits sum.splits prod.splits)

lemma establish_not_suspended: "snd (establish r s) \<noteq> Suspended"
  by (auto simp: establish_def http_setup_def ws_setup_def Let_def split: option.splits sum.splits prod.splits)

lemma establish_trace:
  "\<exists>evs. trace (fst (establish r s)) = trace s @ evs \<and> (\<forall>e\<in>set evs. \<not> is_hook_call e) \<and>
     length (filter is_connect evs) = (if snd (establish r s) = Returned then 1 else 0)"
  by (auto simp: establish_def http_setup_def ws_setup_def Let_def split: option.splits sum.splits prod.splits)

lemma gather_setups_drv:
  "adapters (drv (fst (gather_setups rs s))) = adapters (drv s) \<and>
   requests (drv (fst (gather_setups rs s))) = requests (drv s) \<and>
   startup_funcs (drv (fst (gather_setups rs s))) = startup_funcs (drv s)"
proof (induction rs arbitrary: s)
  case Nil
  show ?case by simp
next
  case (Cons r rs)
  obtain s1 out where e: "establish r s = (s1, out)" by (cases "establish r s")
  have d: "adapters (drv s1) = adapters (drv s)" "requests (drv s1) = requests (drv s)"
    "startup_funcs (drv s1) = startup_funcs (drv s)"
    using establish_drv [of r s] e by simp_all
  show ?case using Cons.IH [of s1] e d by (cases out) simp_all
qed

lemma gather_setups_trace:
  "\<exists>evs. trace (fst (gather_setups rs s)) = trace s @ evs \<and> (\<forall>e\<in>set evs. \<not> is_hook_call e) \<and>
     (snd (gather_setups rs s) = Returned \<longrightarrow> length (filter is_connect evs) = length rs)"
proof (induction rs arbitrary: s)
  case Nil
  show ?case by simp
next
  case (Cons r rs)
  obtain s1 out where e: "establish r s = (s1, out)" by (cases "establish r s")
  obtain evs where evs: "trace s1 = trace s @ evs" "\<forall>e\<in>set evs. \<not> is_hook_call e"
    "length (filter is_connect evs) = (if out = Returned then 1 else 0)"
    using establish_trace [of r s] e by auto
  show ?case
  proof (cases out)
    case Returned
    obtain evs' where evs': "trace (fst (gather_setups rs s1)) = trace s1 @ evs'"
      "\<forall>e\<in>set evs'. \<not> is_hook_call e"
      "snd (gather_setups rs s1) = Returned \<longrightarrow> length (filter is_connect evs') = length rs"
      using Cons.IH [of s1] by blast
    have "trace (fst (gather_setups (r # rs) s)) = trace s @ (evs @ evs')"
      using e Returned evs evs' by simp
    moreover have "\<forall>e\<in>set (evs @ evs'). \<not> is_hook_call e" using evs evs' by auto
    moreover have "snd (gather_setups (r # rs) s) = Returned \<longrightarrow>
        length (filter is_connect (evs @ evs')) = length (r # rs)"
      using e Returned evs evs' by simp
    ultimately show ?thesis by blast
  next
    case (Raised x)
    then show ?thesis using e evs by auto
  next
    case Suspended
    then show ?thesis using e evs by auto
  qed
qed

lemma gather_setups_raises:
  assumes "r \<in> set rs" "snd (establish r s) = Raised e"
  shows "\<exists>r'\<in>set rs. \<exists>e'. snd (establish r' s) = Raised e' \<and> snd (gather_setups rs s) = Raised e'"
  using assms
proof (induction rs arbitrary: s)
  case Nil
  then show ?case by simp
next
  case (Cons a rs)
  obtain s1 out where e: "establish a s = (s1, out)" by (cases "establish a s")
  show ?case
  proof (cases out)
    case Returned
    have ad: "adapters (drv s1) = adapters (drv s)" using establish_drv(1) [of a s] e by simp
    have "r \<noteq> a" using Cons.prems e Returned by auto
    then have "r \<in> set rs" using Cons.prems by simp
    moreover have "snd (establish r s1) = Raised e"
      using establish_outcome_indep [OF ad] Cons.prems by simp
    ultimately obtain r' e' where "r' \<in> set rs" "snd (establish r' s1) = Raised e'"
      "snd (gather_setups rs s1) = Raised e'"
      using Cons.IH [of s1] by blast
    then show ?thesis using e Returned establish_outcome_indep [OF ad, of r'] by auto
  next
    case (Raised x)
    then show ?thesis using e by auto
  next
    case Suspended
    then show ?thesis using e establish_not_suspended [of a s] by simp
  qed
qed

text \<open>
  C1. When the establishment of some registered setup raises, \<open>startup\<close> calls no
  startup hook. When moreover what the establishments raise are exceptions of class
  \<open>Exception\<close> (the ones \<open>except Exception\<close> catches), \<open>startup\<close> returns, and the last
  two things it did were to log the failure and to create the task of \<open>shutdown\<close>, which
  is then the newest task of the loop.
\<close>

theorem startup_failure_skips_hooks:
  assumes "r \<in> set (requests (drv s))" and "snd (establish r s) = Raised e"
  shows "(\<forall>h. Call_hook h \<notin> set (since s (fst (startup answers s)))) \<and>
         ((\<forall>r'\<in>set (requests (drv s)). \<forall>e'. snd (establish r' s) = Raised e' \<longrightarrow> is_Exception e') \<longrightarrow>
            snd (startup answers s) = Returned \<and>
            (\<exists>evs. since s (fst (startup answers s)) =
                evs @ [Log_error ''Application startup failed. Exiting.'', Create_task Co_shutdown]) \<and>
            (\<exists>ts. tasks (fst (startup answers s)) = ts @ [\<lparr>work = Co_shutdown, tstate = Pending\<rparr>]))"
proof -
  obtain s1 out where g: "gather_setups (requests (drv s)) s = (s1, out)"
    by (cases "gather_setups (requests (drv s)) s")
  obtain r' e' where r': "r' \<in> set (requests (drv s))" "snd (establish r' s) = Raised e'"
    "out = Raised e'"
    using gather_setups_raises [OF assms] g by auto
  obtain evs where evs: "trace s1 = trace s @ evs" "\<forall>e\<in>set evs. \<not> is_hook_call e"
    using gather_setups_trace [of "requests (drv s)" s] g by auto
  have nohook: "\<And>h. Call_hook h \<notin> set evs" using evs(2) by fastforce
  show ?thesis
  proof (cases "is_Exception e'")
    case True
    then show ?thesis using g r' evs nohook by (simp add: startup_def)
  next
    case False
    then show ?thesis using g r' evs nohook by (auto simp: startup_def)
  qed
qed

theorem startup_failure_skips_hooks_witness:
  "snd (establish \<lparr>adapter = ''onebot'', request = example_ws, poll_interval = 3,
          reconnect_interval = 3\<rparr> failing_system) = Raised SetupFailed \<and>
   (\<forall>h. Call_hook h \<notin> set (since failing_system (fst (startup [] failing_system)))) \<and>
   snd (startup [] failing_system) = Returned \<and>
   (\<exists>evs. since failing_system (fst (startup [] failing_system)) =
      evs @ [Log_error ''Application startup failed. Exiting.'', Create_task Co_shutdown]) \<and>
   (\<exists>ts. tasks (fst (startup [] failing_system)) = ts @ [\<lparr>work = Co_shutdown, tstate = Pending\<rparr>])"
proof -
  let ?r = "\<lparr>adapter = ''onebot'', request = example_ws, poll_interval = 3,
             reconnect_interval = 3\<rparr>"
  have h1: "?r \<in> set (requests (drv failing_system))"
    by (simp add: example_defs)
  have h2: "snd (establish ?r failing_system) = Raised SetupFailed"
    by (simp add: example_defs establish_def ws_setup_def)
  have h3: "\<forall>r'\<in>set (requests (drv failing_system)). \<forall>e'.
      snd (establish r' failing_system) = Raised e' \<longrightarrow> is_Exception e'"
    by (auto simp: example_defs establish_def ws_setup_def http_setup_def Let_def)
  show ?thesis
    using startup_failure_skips_hooks [OF h1 h2, of "[]"] h2 h3 by blast
qed

text \<open>
  C9. Establishment, by \<open>_http_setup\<close> and by \<open>_ws_setup\<close> alike, raises \<open>KeyError\<close> (the
  spec's \<open>UnknownAdapter\<close>) when the adapter is not in the registry, and \<open>SetupFailed\<close> when
  the permission check gives no \<open>self_id\<close> or an empty one; in both cases the state is as
  it was. Otherwise the bot is put in the table under its \<open>self_id\<close> first, and the task
  of its loop is created from that state: the two events are the connection and then the
  creation of the task, the bot is in the table afterwards, and the loop is a pending
  task that has not run.
\<close>

theorem establishment:
  "(adapters (drv s) a = None \<longrightarrow>
      http_setup a req iv s = (s, Raised KeyError) \<and> ws_setup a req iv s = (s, Raised KeyError)) \<and>
   (adapters (drv s) a = Some cls \<and> check_permission cls req = Inr (sid, m) \<and>
      (sid = None \<or> sid = Some []) \<longrightarrow>
      http_setup a req iv s = (s, Raised SetupFailed) \<and>
      ws_setup a req iv s = (s, Raised SetupFailed)) \<and>
   (adapters (drv s) a = Some cls \<and> check_permission cls req = Inr (Some i, m) \<and> i \<noteq> [] \<longrightarrow>
      (let b = \<lparr>bot_class = class_name cls, self_id = i, bot_request = req\<rparr>
       in clients (drv (bot_connect b s)) i = Some b \<and>
          http_setup a req iv s = (create_task (Co_http_loop b req iv) (bot_connect b s), Returned) \<and>
          ws_setup a req iv s = (create_task (Co_ws_loop b req iv) (bot_connect b s), Returned) \<and>
          since s (fst (http_setup a req iv s)) = [Bot_connect b, Create_task (Co_http_loop b req iv)] \<and>
          since s (fst (ws_setup a req iv s)) = [Bot_connect b, Create_task (Co_ws_loop b req iv)] \<and>
          clients (drv (fst (http_setup a req iv s))) i = Some b \<and>
          clients (drv (fst (ws_setup a req iv s))) i = Some b \<and>
          tasks (fst (http_setup a req iv s)) =
            tasks s @ [\<lparr>work = Co_http_loop b req iv, tstate = Pending\<rparr>] \<and>
          tasks (fst (ws_setup a req iv s)) =
            tasks s @ [\<lparr>work = Co_ws_loop b req iv, tstate = Pending\<rparr>]))"
  by (auto simp: http_setup_def ws_setup_def Let_def)

theorem establishment_witness:
  "http_setup ''nobody'' example_http 1 example_system = (example_system, Raised KeyError) \<and>
   ws_setup ''onebot'' example_ws 3 example_system = (example_system, Raised SetupFailed) \<and>
   http_setup ''onebot'' example_http 1 example_system =
     (create_task (Co_http_loop example_bot example_http 1) (bot_connect example_bot example_system),
      Returned) \<and>
   since example_system (fst (http_setup ''onebot'' example_http 1 example_system)) =
     [Bot_connect example_bot, Create_task (Co_http_loop example_bot example_http 1)] \<and>
   clients (drv (bot_connect example_bot example_system)) ''bot-1'' = Some example_bot \<and>
   clients (drv (fst (http_setup ''onebot'' example_http 1 example_system))) ''bot-1'' =
     Some example_bot"
proof -
  have a1: "adapters (drv example_system) ''nobody'' = None"
    by (simp add: example_defs)
  have a2: "adapters (drv example_system) ''onebot'' = Some example_class"
    by (simp add: example_defs)
  have c2: "check_permission example_class example_ws = Inr (Some [], [])"
    by (simp add: example_defs)
  have c3: "check_permission example_class example_http = Inr (Some ''bot-1'', [])"
    by (simp add: example_defs)
  have n: "class_name example_class = ''onebot''"
    by (simp add: example_class_def)
  have k: "http_setup ''nobody'' example_http 1 example_system = (example_system, Raised KeyError)"
    using establishment [where s = example_system and a = "''nobody''" and req = example_http
        and iv = 1] a1
    by simp
  have f: "ws_setup ''onebot'' example_ws 3 example_system = (example_system, Raised SetupFailed)"
    using establishment [where s = example_system and a = "''onebot''" and req = example_ws
        and iv = 3 and cls = example_class and sid = "Some []" and m = "[]"] a2 c2
    by simp
  have g: "http_setup ''onebot'' example_http 1 example_system =
       (create_task (Co_http_loop example_bot example_http 1)
          (bot_connect example_bot example_system), Returned) \<and>
     since example_system (fst (http_setup ''onebot'' example_http 1 example_system)) =
       [Bot_connect example_bot, Create_task (Co_http_loop example_bot example_http 1)] \<and>
     clients (drv (bot_connect example_bot example_system)) ''bot-1'' = Some example_bot \<and>
     clients (drv (fst (http_setup ''onebot'' example_http 1 example_system))) ''bot-1'' =
       Some example_bot"
    using establishment [where s = example_system and a = "''onebot''" and req = example_http
        and iv = 1 and cls = example_class and i = "''bot-1''" and m = "[]"] a2 c3 n
    by (simp add: Let_def example_bot_def)
  show ?thesis using k f g by simp
qed

text \<open>
  C8. If \<open>startup\<close> calls any startup hook at all, then the wait for the establishments
  had returned: every registered setup was established (one bot connected for each), and
  all the events of the establishments come before the first call of a hook. The hooks
  are called one after the other and awaited in one \<open>gather\<close>. When that wait raises an
  exception of class \<open>Exception\<close>, \<open>startup\<close> logs it and returns: nothing else follows,
  no shutdown among it.
\<close>

theorem hooks_after_establishment:
  assumes "Call_hook h \<in> set (since s (fst (startup answers s)))"
  shows "\<exists>s1 evs. gather_setups (requests (drv s)) s = (s1, Returned) \<and>
           trace s1 = trace s @ evs \<and>
           length (filter is_connect evs) = length (requests (drv s)) \<and>
           (\<forall>e\<in>set evs. \<not> is_hook_call e) \<and>
           since s (fst (startup answers s)) =
             evs @ map Call_hook (startup_funcs (drv s)) @
               Await (Gather_hooks (startup_funcs (drv s))) #
               (case answers of
                  Some e # _ \<Rightarrow>
                    if is_Exception e
                    then [Log_error ''Error when running startup function. Ignored!''] else []
                | _ \<Rightarrow> []) \<and>
           snd (startup answers s) =
             (case answers of
                [] \<Rightarrow> Suspended
              | None # _ \<Rightarrow> Returned
              | Some e # _ \<Rightarrow> if is_Exception e then Returned else Raised e)"
proof -
  obtain s1 out where g: "gather_setups (requests (drv s)) s = (s1, out)"
    by (cases "gather_setups (requests (drv s)) s")
  obtain evs where evs: "trace s1 = trace s @ evs" "\<forall>e\<in>set evs. \<not> is_hook_call e"
    "out = Returned \<longrightarrow> length (filter is_connect evs) = length (requests (drv s))"
    using gather_setups_trace [of "requests (drv s)" s] g by auto
  have nohook: "\<And>h. Call_hook h \<notin> set evs" using evs(2) by fastforce
  have fs: "startup_funcs (drv s1) = startup_funcs (drv s)"
    using gather_setups_drv [of "requests (drv s)" s] g by simp
  show ?thesis
  proof (cases out)
    case Returned
    show ?thesis
    proof (cases "startup_funcs (drv s) = []")
      case True
      then show ?thesis using assms g Returned evs nohook fs by (simp add: startup_def Let_def)
    next
      case False
      then show ?thesis using g Returned evs fs
        by (auto simp: startup_def Let_def split: list.splits option.splits)
    qed
  next
    case (Raised x)
    then show ?thesis using assms g evs nohook
      by (auto simp: startup_def split: if_splits)
  next
    case Suspended
    then show ?thesis using assms g evs nohook by (simp add: startup_def)
  qed
qed

theorem hooks_after_establishment_witness:
  "Call_hook ''on_start'' \<in>
     set (since example_system (fst (startup [Some (Other_exception ''boom'')] example_system))) \<and>
   snd (startup [Some (Other_exception ''boom'')] example_system) = Returned \<and>
   (\<exists>evs. length (filter is_connect evs) = 1 \<and>
      since example_system (fst (startup [Some (Other_exception ''boom'')] example_system)) =
        evs @ [Call_hook ''on_start'', Await (Gather_hooks [''on_start'']),
               Log_error ''Error when running startup function. Ignored!''])"
proof -
  have h: "Call_hook ''on_start'' \<in>
      set (since example_system (fst (startup [Some (Other_exception ''boom'')] example_system)))"
    by (simp add: example_defs startup_def establish_def http_setup_def Let_def since_def)
  have r: "length (requests (drv example_system)) = 1"
    "startup_funcs (drv example_system) = [''on_start'']"
    by (simp_all add: example_defs)
  show ?thesis
    using hooks_after_establishment [OF h] h r by auto
qed


subsection \<open>\<open>shutdown\<close>\<close>

lemma task_cancel_idem [simp]: "task_cancel (task_cancel t) = task_cancel t"
  by (simp add: task_cancel_def)

lemma task_cancel_done [simp]: "tstate t = Done \<Longrightarrow> task_cancel t = t"
  by (simp add: task_cancel_def)

lemma task_cancel_fields [simp]:
  "work (task_cancel t) = work t"
  "tstate (task_cancel t) = (if tstate t = Done then Done else Cancelling)"
  by (simp_all add: task_cancel_def)

lemma cancel_simps [simp]:
  "trace (cancel i s) = trace s @ [Task_cancel i]"
  "drv (cancel i s) = drv s"
  "length (tasks (cancel i s)) = length (tasks s)"
  by (simp_all add: cancel_def)

lemma cancel_nth:
  "k < length (tasks s) \<Longrightarrow>
   tasks (cancel i s) ! k = (if k = i then task_cancel (tasks s ! k) else tasks s ! k)"
  by (simp add: cancel_def nth_list_update)

lemma fold_cancel_simps [simp]:
  "trace (fold cancel ts s) = trace s @ map Task_cancel ts"
  "drv (fold cancel ts s) = drv s"
  "length (tasks (fold cancel ts s)) = length (tasks s)"
  by (induction ts arbitrary: s) simp_all

lemma fold_cancel_nth:
  "k < length (tasks s) \<Longrightarrow>
   tasks (fold cancel ts s) ! k = (if k \<in> set ts then task_cancel (tasks s ! k) else tasks s ! k)"
  by (induction ts arbitrary: s) (auto simp: cancel_nth)

lemma joined_simps [simp]:
  "trace (joined ts s) = trace s" "drv (joined ts s) = drv s"
  by (simp_all add: joined_def)

lemma nth_update_if: "k < length xs \<Longrightarrow> xs[a := v] ! k = (if a = k then v else xs ! k)"
  by (cases "a = k") simp_all

lemma fold_done_length [simp]:
  "length (fold (\<lambda>i xs. xs[i := (xs ! i)\<lparr>tstate := Done\<rparr>]) ts xs) = length xs"
  by (induction ts arbitrary: xs) simp_all

lemma fold_done_nth:
  "k < length xs \<Longrightarrow>
   fold (\<lambda>i xs. xs[i := (xs ! i)\<lparr>tstate := Done\<rparr>]) ts xs ! k =
     (if k \<in> set ts then (xs ! k)\<lparr>tstate := Done\<rparr> else xs ! k)"
  by (induction ts arbitrary: xs) (auto simp: nth_update_if)

lemma joined_length [simp]: "length (tasks (joined ts s)) = length (tasks s)"
  by (simp add: joined_def)

lemma joined_nth:
  "k < length (tasks s) \<Longrightarrow>
   tasks (joined ts s) ! k = (if k \<in> set ts then (tasks s ! k)\<lparr>tstate := Done\<rparr> else tasks s ! k)"
  by (simp add: joined_def fold_done_nth)

lemma set_all_tasks:
  "set (all_tasks s) = {i. i < length (tasks s) \<and> tstate (tasks s ! i) \<noteq> Done}"
  by (auto simp: all_tasks_def)

lemma shutdown_sweep_trace:
  "trace (fst (shutdown_sweep me answers s)) =
     trace s @ map Task_cancel [t \<leftarrow> all_tasks s. t \<noteq> me] @
       (if [t \<leftarrow> all_tasks s. t \<noteq> me] = [] then [Loop_stop]
        else Await (Gather_tasks [t \<leftarrow> all_tasks s. t \<noteq> me]) #
             (case answers of None # _ \<Rightarrow> [Loop_stop] | _ \<Rightarrow> []))"
  by (simp add: shutdown_sweep_def Let_def split: list.splits option.splits)

lemma shutdown_sweep_outcome:
  "snd (shutdown_sweep me answers s) =
     (if [t \<leftarrow> all_tasks s. t \<noteq> me] = [] then Returned
      else case answers of [] \<Rightarrow> Suspended | None # _ \<Rightarrow> Returned | Some e # _ \<Rightarrow> Raised e)"
  by (simp add: shutdown_sweep_def Let_def split: list.splits option.splits)

lemma shutdown_sweep_drv [simp]: "drv (fst (shutdown_sweep me answers s)) = drv s"
  by (simp add: shutdown_sweep_def Let_def split: list.splits option.splits)

lemma shutdown_sweep_length [simp]:
  "length (tasks (fst (shutdown_sweep me answers s))) = length (tasks s)"
  by (simp add: shutdown_sweep_def Let_def split: list.splits option.splits)

lemma shutdown_sweep_nth:
  assumes "k < length (tasks s)"
  shows "tasks (fst (shutdown_sweep me answers s)) ! k =
     (if k = me \<or> tstate (tasks s ! k) = Done then tasks s ! k
      else if snd (shutdown_sweep me answers s) = Returned
           then (tasks s ! k)\<lparr>tstate := Done\<rparr>
           else (tasks s ! k)\<lparr>tstate := Cancelling\<rparr>)"
proof -
  let ?ts = "[t \<leftarrow> all_tasks s. t \<noteq> me]"
  have mem: "k \<in> set ?ts \<longleftrightarrow> k \<noteq> me \<and> tstate (tasks s ! k) \<noteq> Done"
    using assms by (auto simp: set_all_tasks)
  have c: "task_cancel (tasks s ! k) =
      (if tstate (tasks s ! k) = Done then tasks s ! k else (tasks s ! k)\<lparr>tstate := Cancelling\<rparr>)"
    by (simp add: task_cancel_def)
  show ?thesis
  proof (cases "?ts = []")
    case True
    then have "k \<notin> set ?ts" by simp
    then show ?thesis using True mem by (auto simp: shutdown_sweep_def Let_def)
  next
    case False
    show ?thesis
      using False mem assms c
      by (auto simp: shutdown_sweep_def Let_def fold_cancel_nth joined_nth
          split: list.splits option.splits)
  qed
qed


lemma no_stop_in_cancels [simp]: "filter (\<lambda>e. e = Loop_stop) (map Task_cancel ts) = []"
  by (induction ts) simp_all

lemma no_stop_in_calls [simp]: "filter (\<lambda>e. e = Loop_stop) (map Call_hook fs) = []"
  by (induction fs) simp_all

lemma shutdown_sweep_summary:
  "\<exists>rest. trace (fst (shutdown_sweep me answers s)) = trace s @ rest \<and>
     length (filter (\<lambda>e. e = Loop_stop) rest) =
       (if snd (shutdown_sweep me answers s) = Returned then 1 else 0) \<and>
     (\<forall>h. Call_hook h \<notin> set rest) \<and>
     (snd (shutdown_sweep me answers s) \<noteq> Suspended \<or> answers = []) \<and>
     (\<forall>k. k < length (tasks s) \<and> k \<noteq> me \<and> tstate (tasks s ! k) \<noteq> Done \<longrightarrow>
          Task_cancel k \<in> set rest)"
proof -
  let ?ts = "[t \<leftarrow> all_tasks s. t \<noteq> me]"
  let ?rest = "map Task_cancel ?ts @
       (if ?ts = [] then [Loop_stop]
        else Await (Gather_tasks ?ts) #
             (case answers of None # _ \<Rightarrow> [Loop_stop] | _ \<Rightarrow> []))"
  have t: "trace (fst (shutdown_sweep me answers s)) = trace s @ ?rest"
    by (rule shutdown_sweep_trace)
  have c: "length (filter (\<lambda>e. e = Loop_stop) ?rest) =
       (if snd (shutdown_sweep me answers s) = Returned then 1 else 0)"
    by (simp add: shutdown_sweep_outcome split: list.splits option.splits)
  have h: "\<forall>h. Call_hook h \<notin> set ?rest"
    by (auto split: list.splits option.splits)
  have a: "snd (shutdown_sweep me answers s) \<noteq> Suspended \<or> answers = []"
    by (simp add: shutdown_sweep_outcome split: list.splits option.splits)
  have k: "\<forall>k. k < length (tasks s) \<and> k \<noteq> me \<and> tstate (tasks s ! k) \<noteq> Done \<longrightarrow>
          Task_cancel k \<in> set ?rest"
    by (auto simp: set_all_tasks)
  show ?thesis using t c h a k by blast
qed

lemma shutdown_summary:
  "\<exists>rest. trace (fst (shutdown me answers s)) =
       trace s @ map Call_hook (shutdown_funcs (drv s)) @ rest \<and>
     length (filter (\<lambda>e. e = Loop_stop) rest) =
       (if snd (shutdown me answers s) = Returned then 1 else 0) \<and>
     (\<forall>h. Call_hook h \<notin> set rest) \<and>
     (snd (shutdown me answers s) = Returned \<longrightarrow>
        (\<forall>k. k < length (tasks s) \<and> k \<noteq> me \<and> tstate (tasks s ! k) \<noteq> Done \<longrightarrow>
          Task_cancel k \<in> set rest))"
proof -
  let ?F = "shutdown_funcs (drv s)"
  let ?s1 = "call_hooks ?F s"
  let ?s2 = "emit (Await (Gather_hooks ?F)) ?s1"
  let ?s3 = "log_error ''Error when running shutdown function. Ignored!'' ?s2"
  let ?goal = ?thesis
  have sw: "\<And>ans s' pre. trace s' = trace s @ map Call_hook ?F @ pre \<Longrightarrow>
      tasks s' = tasks s \<Longrightarrow> \<forall>h. Call_hook h \<notin> set pre \<Longrightarrow>
      filter (\<lambda>e. e = Loop_stop) pre = [] \<Longrightarrow>
      shutdown me answers s = shutdown_sweep me ans s' \<Longrightarrow> ?goal"
  proof -
    fix ans s' pre
    assume tr: "trace s' = trace s @ map Call_hook ?F @ pre" and ta: "tasks s' = tasks s"
      and nh: "\<forall>h. Call_hook h \<notin> set pre" and ns: "filter (\<lambda>e. e = Loop_stop) pre = []"
      and eq: "shutdown me answers s = shutdown_sweep me ans s'"
    obtain rest where r: "trace (fst (shutdown_sweep me ans s')) = trace s' @ rest"
      "length (filter (\<lambda>e. e = Loop_stop) rest) =
         (if snd (shutdown_sweep me ans s') = Returned then 1 else 0)"
      "\<forall>h. Call_hook h \<notin> set rest"
      "\<forall>k. k < length (tasks s') \<and> k \<noteq> me \<and> tstate (tasks s' ! k) \<noteq> Done \<longrightarrow>
          Task_cancel k \<in> set rest"
      using shutdown_sweep_summary [of me ans s'] by blast
    have "trace (fst (shutdown me answers s)) = trace s @ map Call_hook ?F @ (pre @ rest)"
      using eq r(1) tr by simp
    moreover have "length (filter (\<lambda>e. e = Loop_stop) (pre @ rest)) =
        (if snd (shutdown me answers s) = Returned then 1 else 0)"
      using eq r(2) ns by simp
    moreover have "\<forall>h. Call_hook h \<notin> set (pre @ rest)" using nh r(3) by simp
    moreover have "\<forall>k. k < length (tasks s) \<and> k \<noteq> me \<and> tstate (tasks s ! k) \<noteq> Done \<longrightarrow>
          Task_cancel k \<in> set (pre @ rest)"
      using r(4) ta by simp
    ultimately show ?goal by blast
  qed
  have stop: "\<And>out. shutdown me answers s = (?s2, out) \<Longrightarrow> out \<noteq> Returned \<Longrightarrow> ?goal"
  proof -
    fix out assume eq: "shutdown me answers s = (?s2, out)" and o: "out \<noteq> Returned"
    have "trace (fst (shutdown me answers s)) =
        trace s @ map Call_hook ?F @ [Await (Gather_hooks ?F)]"
      using eq by simp
    moreover have "length (filter (\<lambda>e. e = Loop_stop) [Await (Gather_hooks ?F)]) =
        (if snd (shutdown me answers s) = Returned then 1 else 0)"
      using eq o by simp
    moreover have "\<forall>h. Call_hook h \<notin> set [Await (Gather_hooks ?F)]" by simp
    ultimately show ?goal using eq o by auto
  qed
  show ?thesis
  proof (cases "?F = []")
    case True
    have "shutdown me answers s = shutdown_sweep me answers ?s1"
      using True by (simp add: shutdown_def)
    then show ?thesis using sw [of ?s1 "[]" answers] by simp
  next
    case False
    show ?thesis
    proof (cases answers)
      case Nil
      then have "shutdown me answers s = (?s2, Suspended)"
        using False by (simp add: shutdown_def Let_def)
      then show ?thesis using stop by simp
    next
      case (Cons a rest)
      show ?thesis
      proof (cases a)
        case None
        then have "shutdown me answers s = shutdown_sweep me rest ?s2"
          using False Cons by (simp add: shutdown_def Let_def)
        then show ?thesis using sw [of ?s2 "[Await (Gather_hooks ?F)]" rest] by simp
      next
        case (Some e)
        show ?thesis
        proof (cases "is_Exception e")
          case True
          then have "shutdown me answers s = shutdown_sweep me rest ?s3"
            using False Cons Some by (simp add: shutdown_def Let_def)
          then show ?thesis
            using sw [of ?s3 "[Await (Gather_hooks ?F),
                Log_error ''Error when running shutdown function. Ignored!'']" rest]
            by simp
        next
          case F: False
          then have "shutdown me answers s = (?s2, Raised e)"
            using False Cons Some by (simp add: shutdown_def Let_def)
          then show ?thesis using stop by simp
        qed
      qed
    qed
  qed
qed

lemma shutdown_length [simp]: "length (tasks (fst (shutdown me answers s))) = length (tasks s)"
  by (simp add: shutdown_def Let_def split: list.splits option.splits)

lemma shutdown_drv [simp]: "drv (fst (shutdown me answers s)) = drv s"
  by (simp add: shutdown_def Let_def split: list.splits option.splits)

lemma shutdown_self:
  "me < length (tasks s) \<Longrightarrow> tasks (fst (shutdown me answers s)) ! me = tasks s ! me"
  by (simp add: shutdown_def Let_def shutdown_sweep_nth split: list.splits option.splits)

lemma shutdown_sweep_resume:
  "shutdown_sweep me ans s = (s1, Suspended) \<Longrightarrow>
   shutdown_sweep me (ans @ [Some e]) s = (s1, Raised e)"
  by (auto simp: shutdown_sweep_def Let_def split: list.splits option.splits if_splits)

lemma shutdown_resume:
  assumes "shutdown me ans s = (s1, Suspended)" and "\<not> is_Exception e"
  shows "shutdown me (ans @ [Some e]) s = (s1, Raised e)"
proof (cases "shutdown_funcs (drv s) = []")
  case True
  then show ?thesis using assms shutdown_sweep_resume by (simp add: shutdown_def)
next
  case False
  show ?thesis
  proof (cases ans)
    case Nil
    then show ?thesis using assms False by (simp add: shutdown_def Let_def)
  next
    case (Cons a rest)
    then show ?thesis using assms False shutdown_sweep_resume
      by (cases a) (auto simp: shutdown_def Let_def split: if_splits)
  qed
qed


lemma count_calls [simp]:
  "length (filter ((\<lambda>e. e = Call_hook h) \<circ> Call_hook) fs) = count_list fs h"
  by (induction fs) auto

lemma all_tasks_same [simp]:
  "all_tasks (emit e s) = all_tasks s"
  "all_tasks (log_error m s) = all_tasks s"
  "all_tasks (call_hooks fs s) = all_tasks s"
  by (simp_all add: all_tasks_def)

lemma filter_none: "(\<forall>h. Call_hook h \<notin> set r) \<Longrightarrow> filter (\<lambda>e. e = Call_hook h) r = []"
  by (induction r) auto








subsection \<open>The maintenance loops\<close>

lemma adds_refl [simp]: "adds P s s"
  by (simp add: adds_def)

lemma adds_trans: "adds P s s1 \<Longrightarrow> adds P s1 s2 \<Longrightarrow> adds P s s2"
  by (auto simp: adds_def)

lemma adds_emit: "P e \<Longrightarrow> adds P s s1 \<Longrightarrow> adds P s (emit e s1)"
  by (auto simp: adds_def)

lemma adds_log: "P (Log_error m) \<Longrightarrow> adds P s s1 \<Longrightarrow> adds P s (log_error m s1)"
  by (auto simp: adds_def)

lemma adds_create: "P (Create_task co) \<Longrightarrow> adds P s s1 \<Longrightarrow> adds P s (create_task co s1)"
  by (auto simp: adds_def)

lemma adds_since:
  assumes "adds P s s'"
  shows "trace s' = trace s @ since s s'" and "list_all P (since s s')" and "drv s' = drv s"
  using assms by (auto simp: adds_def)

lemma poll_once_adds: "adds calm s0 s \<Longrightarrow> adds calm s0 (fst (poll_once rfs b m u body p s))"
  by (auto simp: poll_once_def Let_def split: sum.splits intro!: adds_emit adds_create)

lemma http_poll_adds:
  "adds calm s0 s \<Longrightarrow> adds calm s0 (fst (http_poll rfs b m u body iv ps s)) \<and>
     snd (http_poll rfs b m u body iv ps s) \<noteq> Returned"
proof (induction ps arbitrary: s)
  case Nil
  then show ?case by (simp add: adds_emit)
next
  case (Cons p ps)
  obtain s1 r where p1: "poll_once rfs b m u body p s = (s1, r)"
    by (cases "poll_once rfs b m u body p s")
  have a1: "adds calm s0 s1" using poll_once_adds [OF Cons.prems, of rfs b m u body p] p1 by simp
  have sl: "adds calm s0 (emit (Await (Sleep iv)) (log_error ''Error occurred while requesting'' s1))"
    by (intro adds_emit adds_log a1) simp_all
  have sn: "adds calm s0 (emit (Await (Sleep iv)) s1)"
    by (intro adds_emit a1) simp
  show ?case
    using p1 a1 sl sn Cons.IH [OF sl] Cons.IH [OF sn]
    by (auto simp: Let_def split: option.splits)
qed

lemma http_run_adds:
  "adds calm s (fst (http_run rfs b req iv ps s)) \<and> snd (http_run rfs b req iv ps s) \<noteq> Returned"
  using http_poll_adds [of s s]
  by (auto simp: http_run_def split: request.splits sum.splits)

lemma ws_frames_adds: "adds still s0 s \<Longrightarrow> adds still s0 (fst (ws_frames enc b ms s))"
  by (induction enc b ms s rule: ws_frames.induct) (simp_all add: adds_create adds_log)

lemma ws_connections_adds:
  "adds still s0 s \<Longrightarrow> adds still s0 (fst (ws_connections enc b u iv cs s)) \<and>
     snd (ws_connections enc b u iv cs s) \<noteq> Returned"
proof (induction cs arbitrary: s)
  case Nil
  then show ?case by (simp add: adds_emit)
next
  case (Cons c cs)
  show ?case
  proof (cases c)
    case (Connect_raised e)
    then show ?thesis using Cons.prems by (simp add: adds_emit)
  next
    case (Connected ms fin)
    obtain s1 br where f: "ws_frames enc b ms (emit (Await (Ws_connect u)) s) = (s1, br)"
      by (cases "ws_frames enc b ms (emit (Await (Ws_connect u)) s)")
    have a0: "adds still s0 (emit (Await (Ws_connect u)) s)"
      by (intro adds_emit Cons.prems) simp
    have a1: "adds still s0 s1" using ws_frames_adds [OF a0, of enc b ms] f by simp
    have a2: "adds still s0 (emit (Not_awaited (Sleep iv)) s1)"
      by (intro adds_emit a1) simp
    show ?thesis
      using Connected f a1 Cons.IH [OF a2]
      by (auto split: ending.splits bool.splits)
  qed
qed

lemma ws_run_adds:
  "adds still s (fst (ws_run enc b req iv cs s)) \<and> snd (ws_run enc b req iv cs s) \<noteq> Returned"
proof -
  have "\<And>u. adds still s (fst (ws_connections enc b u iv cs s)) \<and>
      snd (ws_connections enc b u iv cs s) \<noteq> Returned"
    by (rule ws_connections_adds) simp
  then show ?thesis
    by (auto simp: ws_run_def split: request.splits sum.splits)
qed

lemma filter_calm:
  "list_all calm evs \<Longrightarrow> filter (\<lambda>e. e = Bot_disconnect b) evs = []"
  by (induction evs) auto

lemma calm_no_stop: "list_all calm evs \<Longrightarrow> Loop_stop \<notin> set evs \<and> (\<forall>k. Task_cancel k \<notin> set evs)"
  by (induction evs) auto

lemma still_calm: "list_all still evs \<Longrightarrow> list_all calm evs"
  by (induction evs) auto

lemma still_no_sleep: "list_all still evs \<Longrightarrow> \<forall>d. Await (Sleep d) \<notin> set evs"
  by (induction evs) auto

text \<open>The exit of a loop whose body added only calm events.\<close>

lemma loop_exit_once:
  assumes "trace s1 = trace s @ evs" and "list_all calm evs" and "drv s1 = drv s"
    and "out1 \<noteq> Returned"
  shows "length (filter (\<lambda>e. e = Bot_disconnect b) (since s (fst (loop_exit msg b (s1, out1))))) =
           (if out1 = Suspended then 0 else 1) \<and>
         (out1 \<noteq> Suspended \<longrightarrow>
            clients (drv (fst (loop_exit msg b (s1, out1)))) (self_id b) = None) \<and>
         (out1 = Suspended \<longrightarrow> loop_exit msg b (s1, out1) = (s1, out1)) \<and>
         (out1 = Raised CancelledError \<longrightarrow>
            snd (loop_exit msg b (s1, out1)) = Returned \<and>
            since s (fst (loop_exit msg b (s1, out1))) = since s s1 @ [Bot_disconnect b]) \<and>
         (\<forall>e. out1 = Raised e \<and> is_Exception e \<longrightarrow>
            snd (loop_exit msg b (s1, out1)) = Returned \<and>
            since s (fst (loop_exit msg b (s1, out1))) =
              since s s1 @ [Log_error msg, Bot_disconnect b]) \<and>
         tasks (fst (loop_exit msg b (s1, out1))) = tasks s1 \<and>
         Loop_stop \<notin> set (since s (fst (loop_exit msg b (s1, out1)))) \<and>
         (\<forall>k. Task_cancel k \<notin> set (since s (fst (loop_exit msg b (s1, out1)))))"
proof -
  have f: "filter (\<lambda>e. e = Bot_disconnect b) evs = []" using assms(2) by (rule filter_calm)
  have n: "Loop_stop \<notin> set evs" "\<And>k. Task_cancel k \<notin> set evs"
    using calm_no_stop [OF assms(2)] by auto
  show ?thesis
  proof (cases out1)
    case Returned
    then show ?thesis using assms(4) by simp
  next
    case (Raised e)
    then show ?thesis using assms(1) f n by (simp add: loop_exit_def)
  next
    case Suspended
    then show ?thesis using assms(1) f n by (simp add: loop_exit_def)
  qed
qed




lemma example_build_url: "build_url example_connection = Inr example_url"
  by (simp add: build_url_def example_connection_def example_url_def)


lemma http_poll_first:
  "adds calm (emit (Await (Session_request m u body)) s) (fst (http_poll rfs b m u body iv ps s))"
proof (cases ps)
  case Nil
  then show ?thesis by simp
next
  case (Cons p ps')
  let ?s0 = "emit (Await (Session_request m u body)) s"
  obtain s1 r where p1: "poll_once rfs b m u body p s = (s1, r)"
    by (cases "poll_once rfs b m u body p s")
  have "adds calm ?s0 (fst (poll_once rfs b m u body p s))"
    by (simp add: poll_once_def Let_def adds_emit adds_create split: sum.splits)
  then have a1: "adds calm ?s0 s1" using p1 by simp
  have sl: "adds calm ?s0 (emit (Await (Sleep iv)) (log_error ''Error occurred while requesting'' s1))"
    by (intro adds_emit adds_log a1) simp_all
  have sn: "adds calm ?s0 (emit (Await (Sleep iv)) s1)"
    by (intro adds_emit a1) simp
  show ?thesis
    using Cons p1 a1 sl sn http_poll_adds [OF sl, of rfs b m u body iv ps']
      http_poll_adds [OF sn, of rfs b m u body iv ps']
    by (auto simp: Let_def split: option.splits)
qed

lemma calm_no_disconnect: "list_all calm evs \<Longrightarrow> \<forall>x. Bot_disconnect x \<notin> set evs"
  by (induction evs) auto



lemma ws_frames_broke: "snd (ws_frames enc b ms s) = (Error \<in> set ms)"
  by (induction enc b ms s rule: ws_frames.induct) simp_all

lemma ws_frames_clean:
  "Error \<notin> set ms \<Longrightarrow>
   trace (fst (ws_frames enc b ms s)) =
     trace s @ map Create_task
       (concat (map (\<lambda>f. case f of Text d \<Rightarrow> [Co_handle_message b (enc d)]
                              | Binary d \<Rightarrow> [Co_handle_message b d] | _ \<Rightarrow> []) ms)) \<and>
   tasks (fst (ws_frames enc b ms s)) =
     tasks s @ map (\<lambda>co. \<lparr>work = co, tstate = Pending\<rparr>)
       (concat (map (\<lambda>f. case f of Text d \<Rightarrow> [Co_handle_message b (enc d)]
                              | Binary d \<Rightarrow> [Co_handle_message b d] | _ \<Rightarrow> []) ms)) \<and>
   drv (fst (ws_frames enc b ms s)) = drv s"
  by (induction enc b ms s rule: ws_frames.induct) simp_all

lemma ws_frames_error:
  "Error \<notin> set pre \<Longrightarrow>
   ws_frames enc b (pre @ Error # post) s =
     (log_error ''Error while handling websocket frame. Try to reconnect...''
        (fst (ws_frames enc b pre s)), True)"
  by (induction enc b pre s rule: ws_frames.induct) simp_all

lemma ws_connections_ended:
  "fin = Closed \<or> Error \<in> set ms \<Longrightarrow>
   ws_connections enc b u iv (Connected ms fin # cs) s =
     ws_connections enc b u iv cs
       (emit (Not_awaited (Sleep iv)) (fst (ws_frames enc b ms (emit (Await (Ws_connect u)) s))))"
  using ws_frames_broke [of enc b ms "emit (Await (Ws_connect u)) s"]
  by (cases "ws_frames enc b ms (emit (Await (Ws_connect u)) s)") (auto split: bool.splits)

lemma ws_connections_first:
  "adds still (emit (Await (Ws_connect u)) s) (fst (ws_connections enc b u iv cs s))"
proof (cases cs)
  case Nil
  then show ?thesis by simp
next
  case (Cons c cs')
  let ?s0 = "emit (Await (Ws_connect u)) s"
  show ?thesis
  proof (cases c)
    case (Connect_raised e)
    then show ?thesis using Cons by simp
  next
    case (Connected ms fin)
    obtain s1 br where f: "ws_frames enc b ms ?s0 = (s1, br)"
      by (cases "ws_frames enc b ms ?s0")
    have "adds still ?s0 (fst (ws_frames enc b ms ?s0))" by (rule ws_frames_adds) simp
    then have a1: "adds still ?s0 s1" using f by simp
    have a2: "adds still ?s0 (emit (Not_awaited (Sleep iv)) s1)"
      by (intro adds_emit a1) simp
    show ?thesis
      using Cons Connected f a1 ws_connections_adds [OF a2, of enc b u iv cs']
      by (auto split: ending.splits bool.splits)
  qed
qed

lemma loop_exit_tail:
  "\<exists>tail. trace (fst (loop_exit msg b (s1, out))) = trace s1 @ tail \<and>
     (\<forall>d. Await (Sleep d) \<notin> set tail)"
  by (cases out) (auto simp: loop_exit_def)







end
